theory Spec2Isabelle
  imports Main "HOL-Library.Sublist"
begin

section \<open>Values, exceptions and the call history\<close>

text \<open>
  The combinator \<open>bounded_while_loop\<close> of \<open>jax_bounded_while/__init__.py\<close> takes two
  user functions, an initial carry and a bound. It is modelled at the level of what is
  executed: a user function either returns or raises, every invocation of a user
  function is recorded in a call history that is threaded through the run, and an
  exception is the \<open>Inl\<close> branch of a sum.
\<close>

text \<open>A Python exception: its class and its message.\<close>

datatype pyexc =
    ValueError string
  | RuntimeError string
  | AssertionError string
  | OtherError string string

text \<open>
  The Python values that can be passed as \<open>max_steps\<close>. A float is kept as mantissa and
  binary exponent (\<open>1.5\<close> is \<open>PyFloat 3 (-1)\<close>); the code never looks at it.
\<close>

datatype pyval =
    PyInt int
  | PyBool bool
  | PyFloat int int
  | PyStr string
  | PyNone

text \<open>
  \<open>isinstance(v, int)\<close> together with the integer the value then stands for: \<open>bool\<close> is a
  subclass of \<open>int\<close> in Python, with \<open>True == 1\<close> and \<open>False == 0\<close>. \<open>None\<close> is the answer
  for a value that is not an instance of \<open>int\<close>.
\<close>

fun isinstance_int :: "pyval \<Rightarrow> int option" where
  "isinstance_int (PyInt n) = Some n"
| "isinstance_int (PyBool b) = Some (if b then 1 else 0)"
| "isinstance_int (PyFloat m e) = None"
| "isinstance_int (PyStr s) = None"
| "isinstance_int PyNone = None"

text \<open>What \<open>cond_fn\<close> may return (its result type is \<open>Any\<close>): a boolean or an integer scalar.\<close>

datatype scalar = SBool bool | SInt int

text \<open>
  Modelled from the spec: the array library's \<open>jnp.asarray(x, dtype=bool)\<close> is not part of
  the repository; the result of \<open>cond\<close> is "coerced to a boolean scalar", a number being
  true exactly when it is not zero.
\<close>

fun asarray_bool :: "scalar \<Rightarrow> bool" where
  "asarray_bool (SBool b) = b"
| "asarray_bool (SInt n) = (n \<noteq> 0)"

text \<open>One entry of the call history per invocation of a user function, with its argument.\<close>

datatype 'a call = CondCall 'a | BodyCall 'a

fun is_body_call :: "'a call \<Rightarrow> bool" where
  "is_body_call (BodyCall v) = True"
| "is_body_call (CondCall v) = False"

definition body_calls :: "'a call list \<Rightarrow> nat" where
  "body_calls log = length (filter is_body_call log)"

text \<open>The exception, if any, that a recorded call ended with.\<close>

fun raised :: "('a \<Rightarrow> pyexc + scalar) \<Rightarrow> ('a \<Rightarrow> pyexc + 'a) \<Rightarrow> 'a call \<Rightarrow> pyexc option" where
  "raised cond_fn body_fn (CondCall v) = (case cond_fn v of Inl e \<Rightarrow> Some e | Inr r \<Rightarrow> None)"
| "raised cond_fn body_fn (BodyCall v) = (case body_fn v of Inl e \<Rightarrow> Some e | Inr w \<Rightarrow> None)"

section \<open>The external primitives\<close>

text \<open>
  Modelled from the spec: the exclusive conditional-branch primitive (\<open>lax.cond\<close>) is not
  part of the repository; it "executes exactly one branch and returns its result".
\<close>

definition lax_cond :: "bool \<Rightarrow> ('s \<Rightarrow> 'r) \<Rightarrow> ('s \<Rightarrow> 'r) \<Rightarrow> 's \<Rightarrow> 'r" where
  "lax_cond pred true_fun false_fun s = (if pred then true_fun s else false_fun s)"

text \<open>
  Modelled from the spec: the fixed-length iteration primitive (\<open>lax.scan\<close> with \<open>xs=None\<close>)
  is not part of the repository; "given a transition function \<open>(state, dummy) -> (state, aux)\<close>
  and a count N, executes it exactly N times sequentially and returns the final state".
  The dummy input and the auxiliary output are \<open>None\<close>, here \<open>()\<close>. An exception raised by
  the transition function ends the iteration.
\<close>

fun lax_scan ::
  "('c \<Rightarrow> unit \<Rightarrow> 's \<Rightarrow> 's \<times> (pyexc + 'c \<times> unit)) \<Rightarrow> 'c \<Rightarrow> nat \<Rightarrow> 's \<Rightarrow> 's \<times> (pyexc + 'c \<times> unit)"
where
  "lax_scan f init 0 s = (s, Inr (init, ()))"
| "lax_scan f init (Suc n) s =
     (case f init () s of
        (s', Inl e) \<Rightarrow> (s', Inl e)
      | (s', Inr (carry, ys)) \<Rightarrow> lax_scan f carry n s')"

text \<open>
  Modelled from the spec: the deferred-assertion primitive (\<open>equinox.error_if\<close>) is not part
  of the repository; "given a value, a boolean predicate, and a diagnostic message, returns
  the value unchanged if the predicate is false, and arranges for a runtime failure bearing
  that message when the value is realized and the predicate is true". A returned value is
  therefore either plain or poisoned with a message, and \<open>realize\<close> is what consuming it
  does.
\<close>

datatype 'a checked = Plain 'a | Poisoned 'a string

definition error_if :: "'a \<Rightarrow> bool \<Rightarrow> string \<Rightarrow> 'a checked" where
  "error_if x pred msg = (if pred then Poisoned x msg else Plain x)"

fun realize :: "'a checked \<Rightarrow> pyexc + 'a" where
  "realize (Plain x) = Inr x"
| "realize (Poisoned x msg) = Inl (RuntimeError msg)"

section \<open>The combinator\<close>

text \<open>The three leaf branches and the inner branch of \<open>scan_step\<close>, closures in the source.\<close>

definition already_done ::
  "'a \<times> bool \<Rightarrow> 'a call list \<Rightarrow> 'a call list \<times> (pyexc + 'a \<times> bool)" where
  "already_done carry log = (log, Inr carry)"

definition do_body ::
  "('a \<Rightarrow> pyexc + 'a) \<Rightarrow> 'a \<Rightarrow> 'a call list \<Rightarrow> 'a call list \<times> (pyexc + 'a \<times> bool)" where
  "do_body body_fn val log =
     (case body_fn val of
        Inl e \<Rightarrow> (log @ [BodyCall val], Inl e)
      | Inr new_val \<Rightarrow> (log @ [BodyCall val], Inr (new_val, False)))"

definition stop_now ::
  "'a \<Rightarrow> 'a call list \<Rightarrow> 'a call list \<times> (pyexc + 'a \<times> bool)" where
  "stop_now val log = (log, Inr (val, True))"

definition not_done ::
  "('a \<Rightarrow> pyexc + scalar) \<Rightarrow> ('a \<Rightarrow> pyexc + 'a) \<Rightarrow> 'a \<Rightarrow> 'a call list
     \<Rightarrow> 'a call list \<times> (pyexc + 'a \<times> bool)" where
  "not_done cond_fn body_fn val log =
     (case cond_fn val of
        Inl e \<Rightarrow> (log @ [CondCall val], Inl e)
      | Inr r \<Rightarrow>
          (let continue = asarray_bool r
           in lax_cond continue (do_body body_fn val) (stop_now val) (log @ [CondCall val])))"

text \<open>One bounded step on the augmented carry \<open>(val, done)\<close>.\<close>

definition scan_step ::
  "('a \<Rightarrow> pyexc + scalar) \<Rightarrow> ('a \<Rightarrow> pyexc + 'a) \<Rightarrow> 'a \<times> bool \<Rightarrow> unit \<Rightarrow> 'a call list
     \<Rightarrow> 'a call list \<times> (pyexc + ('a \<times> bool) \<times> unit)" where
  "scan_step cond_fn body_fn carry unused log =
     (case carry of (val, done) \<Rightarrow>
        (case lax_cond done (already_done carry) (not_done cond_fn body_fn val) log of
           (log', Inl e) \<Rightarrow> (log', Inl e)
         | (log', Inr (new_val, new_done)) \<Rightarrow> (log', Inr ((new_val, new_done), ()))))"

definition max_steps_msg :: string where
  "max_steps_msg = ''max_steps must be a non-negative Python int.''"

definition exceeded_msg :: string where
  "exceeded_msg = ''bounded_while_loop exceeded max_steps without cond_fn becoming False.''"

text \<open>
  \<open>bounded_while_loop\<close>: the validation of \<open>max_steps\<close> (the \<open>or\<close> of the source does not
  compare a value that is not an \<open>int\<close>), the trivial bound, the scan from
  \<open>(init_val, False)\<close> and the deferred check of the final latch.
\<close>

definition bounded_while_loop ::
  "('a \<Rightarrow> pyexc + scalar) \<Rightarrow> ('a \<Rightarrow> pyexc + 'a) \<Rightarrow> 'a \<Rightarrow> pyval \<Rightarrow> 'a call list
     \<Rightarrow> 'a call list \<times> (pyexc + 'a checked)" where
  "bounded_while_loop cond_fn body_fn init_val max_steps log =
     (case isinstance_int max_steps of
        None \<Rightarrow> (log, Inl (ValueError max_steps_msg))
      | Some n \<Rightarrow>
          if n < 0 then (log, Inl (ValueError max_steps_msg))
          else if n = 0 then (log, Inr (Plain init_val))
          else
            (case lax_scan (scan_step cond_fn body_fn) (init_val, False) (nat n) log of
               (log', Inl e) \<Rightarrow> (log', Inl e)
             | (log', Inr ((final_val, final_done), ys)) \<Rightarrow>
                 (log', Inr (error_if final_val (\<not> final_done) exceeded_msg))))"

section \<open>Runs of the user functions\<close>

text \<open>
  The carry obtained by applying \<open>body_fn\<close> \<open>k\<close> times to a value; an exception raised by one
  application ends the chain.
\<close>

fun apply_times :: "('a \<Rightarrow> pyexc + 'a) \<Rightarrow> nat \<Rightarrow> 'a \<Rightarrow> pyexc + 'a" where
  "apply_times body_fn 0 v = Inr v"
| "apply_times body_fn (Suc k) v =
     (case apply_times body_fn k v of Inl e \<Rightarrow> Inl e | Inr w \<Rightarrow> body_fn w)"

text \<open>
  The truth value of \<open>cond_fn\<close> after \<open>i\<close> applications of \<open>body_fn\<close> to \<open>init_val\<close>; \<open>None\<close> when
  one of the calls needed to get there raises.
\<close>

definition cond_at ::
  "('a \<Rightarrow> pyexc + scalar) \<Rightarrow> ('a \<Rightarrow> pyexc + 'a) \<Rightarrow> 'a \<Rightarrow> nat \<Rightarrow> bool option" where
  "cond_at cond_fn body_fn init_val i =
     (case apply_times body_fn i init_val of
        Inl e \<Rightarrow> None
      | Inr v \<Rightarrow> (case cond_fn v of Inl e \<Rightarrow> None | Inr r \<Rightarrow> Some (asarray_bool r)))"

text \<open>\<open>cond_fn\<close> is true after each of the first \<open>n\<close> counts \<open>0, ..., n - 1\<close> of applications.\<close>

definition remains_true ::
  "('a \<Rightarrow> pyexc + scalar) \<Rightarrow> ('a \<Rightarrow> pyexc + 'a) \<Rightarrow> 'a \<Rightarrow> nat \<Rightarrow> bool" where
  "remains_true cond_fn body_fn init_val n =
     list_all (\<lambda>i. cond_at cond_fn body_fn init_val i = Some True) [0..<n]"

text \<open>\<open>cond_fn\<close> first becomes false after exactly \<open>k\<close> applications of \<open>body_fn\<close>.\<close>

definition first_false_after ::
  "('a \<Rightarrow> pyexc + scalar) \<Rightarrow> ('a \<Rightarrow> pyexc + 'a) \<Rightarrow> 'a \<Rightarrow> nat \<Rightarrow> bool" where
  "first_false_after cond_fn body_fn init_val k =
     (remains_true cond_fn body_fn init_val k \<and> cond_at cond_fn body_fn init_val k = Some False)"

text \<open>
  The calls of a run whose first \<open>n\<close> steps all apply the body: \<open>cond_fn\<close> and then \<open>body_fn\<close>
  on each of the carries \<open>0, ..., n - 1\<close>.
\<close>

definition active_calls :: "('a \<Rightarrow> pyexc + 'a) \<Rightarrow> 'a \<Rightarrow> nat \<Rightarrow> 'a call list" where
  "active_calls body_fn init_val n =
     concat (map (\<lambda>i. case apply_times body_fn i init_val of
                         Inl e \<Rightarrow> []
                       | Inr v \<Rightarrow> [CondCall v, BodyCall v]) [0..<n])"

text \<open>
  The loop that the docstring of \<open>bounded_while_loop\<close> says it emulates:
  \<^verbatim>\<open>val = init_val; i = 0
while cond_fn(val) and i < max_steps: val = body_fn(val); i += 1
return val\<close>
  The last argument is \<open>max_steps - i\<close>.
\<close>

fun docstring_loop ::
  "('a \<Rightarrow> pyexc + scalar) \<Rightarrow> ('a \<Rightarrow> pyexc + 'a) \<Rightarrow> 'a \<Rightarrow> nat \<Rightarrow> pyexc + 'a" where
  "docstring_loop cond_fn body_fn val 0 =
     (case cond_fn val of Inl e \<Rightarrow> Inl e | Inr r \<Rightarrow> Inr val)"
| "docstring_loop cond_fn body_fn val (Suc left) =
     (case cond_fn val of
        Inl e \<Rightarrow> Inl e
      | Inr r \<Rightarrow>
          if asarray_bool r
          then (case body_fn val of
                  Inl e \<Rightarrow> Inl e
                | Inr new_val \<Rightarrow> docstring_loop cond_fn body_fn new_val left)
          else Inr val)"

text \<open>
  A non-negative integer, as a property of the Python value passed for \<open>max_steps\<close>. Python
  counts its booleans among the integers (\<open>True\<close> is the integer 1, \<open>False\<close> the integer 0).
\<close>

fun non_negative_integer :: "pyval \<Rightarrow> bool" where
  "non_negative_integer (PyInt n) = (0 \<le> n)"
| "non_negative_integer (PyBool b) = True"
| "non_negative_integer (PyFloat m e) = False"
| "non_negative_integer (PyStr s) = False"
| "non_negative_integer PyNone = False"

subsection \<open>The user functions of the unit tests\<close>

text \<open>\<open>cond_fn(x) = x < n\<close>, \<open>cond_fn(_) = True\<close>, \<open>body_fn(x) = x + 1\<close>, and a function that raises.\<close>

definition cond_lt :: "int \<Rightarrow> int \<Rightarrow> pyexc + scalar" where
  "cond_lt n x = Inr (SBool (x < n))"

definition always_true :: "int \<Rightarrow> pyexc + scalar" where
  "always_true x = Inr (SBool True)"

definition add_one :: "int \<Rightarrow> pyexc + int" where
  "add_one x = Inr (x + 1)"

definition cond_raises :: "int \<Rightarrow> pyexc + scalar" where
  "cond_raises x = Inl (AssertionError ''cond_fn should not be called when max_steps=0'')"

definition body_raises :: "int \<Rightarrow> pyexc + int" where
  "body_raises x = Inl (AssertionError ''body_fn should not be called when max_steps=0'')"

text \<open>A body that raises on the carry \<open>n\<close> and adds one to any other.\<close>

definition fails_at :: "int \<Rightarrow> int \<Rightarrow> pyexc + int" where
  "fails_at n x = (if x = n then Inl (OtherError ''KeyError'' ''missing'') else Inr (x + 1))"

text \<open>
  A result agrees with the user functions when, if it is a value, no recorded call raised,
  and, if it is an exception, that exception is the only one a recorded call raised and
  some recorded call did raise it.
\<close>

definition faithful ::
  "('a \<Rightarrow> pyexc + scalar) \<Rightarrow> ('a \<Rightarrow> pyexc + 'a) \<Rightarrow> 'a call list \<times> (pyexc + 'x) \<Rightarrow> bool" where
  "faithful cond_fn body_fn res =
     (case res of
        (log, Inr x) \<Rightarrow> list_all (\<lambda>call. raised cond_fn body_fn call = None) log
      | (log, Inl e) \<Rightarrow>
          list_all (\<lambda>call. raised cond_fn body_fn call = None
                        \<or> raised cond_fn body_fn call = Some e) log
          \<and> list_ex (\<lambda>call. raised cond_fn body_fn call = Some e) log)"

section \<open>The step transition\<close>

lemma scan_step_done:
  "scan_step cond_fn body_fn (val, True) u log = (log, Inr ((val, True), ()))"
  by (simp add: scan_step_def lax_cond_def already_done_def)

lemma scan_step_raise_cond:
  "cond_fn val = Inl e \<Longrightarrow>
   scan_step cond_fn body_fn (val, False) u log = (log @ [CondCall val], Inl e)"
  by (simp add: scan_step_def lax_cond_def not_done_def)

lemma scan_step_stop:
  "cond_fn val = Inr r \<Longrightarrow> \<not> asarray_bool r \<Longrightarrow>
   scan_step cond_fn body_fn (val, False) u log = (log @ [CondCall val], Inr ((val, True), ()))"
  by (simp add: scan_step_def lax_cond_def not_done_def stop_now_def)

lemma scan_step_body:
  "cond_fn val = Inr r \<Longrightarrow> asarray_bool r \<Longrightarrow> body_fn val = Inr w \<Longrightarrow>
   scan_step cond_fn body_fn (val, False) u log =
     (log @ [CondCall val, BodyCall val], Inr ((w, False), ()))"
  by (simp add: scan_step_def lax_cond_def not_done_def do_body_def)

lemma scan_step_raise_body:
  "cond_fn val = Inr r \<Longrightarrow> asarray_bool r \<Longrightarrow> body_fn val = Inl e \<Longrightarrow>
   scan_step cond_fn body_fn (val, False) u log = (log @ [CondCall val, BodyCall val], Inl e)"
  by (simp add: scan_step_def lax_cond_def not_done_def do_body_def)

text \<open>
  C3. The step transition on \<open>(val, done)\<close>: when \<open>done\<close> is true it returns \<open>(val, True)\<close> and
  calls neither user function (the call history is unchanged); when \<open>done\<close> is false it
  calls \<open>cond_fn\<close> on \<open>val\<close>, coerces the result to a boolean, and then either applies
  \<open>body_fn\<close> and returns \<open>(body_fn val, False)\<close>, or returns \<open>(val, True)\<close> without calling
  \<open>body_fn\<close>.
\<close>

theorem scan_step_contract:
  "scan_step cond_fn body_fn (val, True) u log = (log, Inr ((val, True), ()))
   \<and> (cond_fn val = Inr r \<and> asarray_bool r \<and> body_fn val = Inr w \<longrightarrow>
        scan_step cond_fn body_fn (val, False) u log =
          (log @ [CondCall val, BodyCall val], Inr ((w, False), ())))
   \<and> (cond_fn val = Inr r \<and> \<not> asarray_bool r \<longrightarrow>
        scan_step cond_fn body_fn (val, False) u log =
          (log @ [CondCall val], Inr ((val, True), ())))"
  by (simp add: scan_step_def lax_cond_def not_done_def do_body_def stop_now_def
      already_done_def)

theorem scan_step_contract_witness:
  "scan_step (\<lambda>x::int. Inr (SBool (x < 5))) (\<lambda>x. Inr (x + 1)) (7, True) () [] =
     ([], Inr ((7, True), ()))
   \<and> scan_step (\<lambda>x::int. Inr (SBool (x < 5))) (\<lambda>x. Inr (x + 1)) (3, False) () [] =
       ([CondCall 3, BodyCall 3], Inr ((4, False), ()))
   \<and> scan_step (\<lambda>x::int. Inr (SInt (5 - x))) (\<lambda>x. Inr (x + 1)) (5, False) () [] =
       ([CondCall 5], Inr ((5, True), ()))"
  using scan_step_contract [where cond_fn = "\<lambda>x::int. Inr (SBool (x < 5))"
      and body_fn = "\<lambda>x. Inr (x + 1)" and val = 7 and u = "()" and log = "[]"]
    scan_step_contract [where cond_fn = "\<lambda>x::int. Inr (SBool (x < 5))"
      and body_fn = "\<lambda>x. Inr (x + 1)" and val = 3 and u = "()" and log = "[]"
      and r = "SBool True" and w = 4]
    scan_step_contract [where cond_fn = "\<lambda>x::int. Inr (SInt (5 - x))"
      and body_fn = "\<lambda>x. Inr (x + 1)" and val = 5 and u = "()" and log = "[]"
      and r = "SInt 0"]
  by simp

section \<open>Properties of the iteration\<close>

lemma lax_scan_add:
  "lax_scan f c (m + n) s =
     (case lax_scan f c m s of
        (s', Inl e) \<Rightarrow> (s', Inl e)
      | (s', Inr (c', ys)) \<Rightarrow> lax_scan f c' n s')"
  by (induction m arbitrary: c s) (auto split: prod.splits sum.splits)

lemma lax_scan_Suc_end:
  "lax_scan f c (Suc n) s =
     (case lax_scan f c n s of
        (s', Inl e) \<Rightarrow> (s', Inl e)
      | (s', Inr (c', ys)) \<Rightarrow> f c' () s')"
proof -
  have "lax_scan f c (n + 1) s =
     (case lax_scan f c n s of
        (s', Inl e) \<Rightarrow> (s', Inl e)
      | (s', Inr (c', ys)) \<Rightarrow> lax_scan f c' 1 s')"
    by (rule lax_scan_add)
  then show ?thesis
    by (auto split: prod.splits sum.splits)
qed

lemma lax_scan_done:
  "lax_scan (scan_step cond_fn body_fn) (val, True) n log = (log, Inr ((val, True), ()))"
  by (induction n) (simp_all add: scan_step_done)

lemma remains_true_iff:
  "remains_true cond_fn body_fn init_val n \<longleftrightarrow>
     (\<forall>i<n. cond_at cond_fn body_fn init_val i = Some True)"
  by (auto simp: remains_true_def list_all_iff)

lemma cond_at_SomeD:
  "cond_at cond_fn body_fn init_val i = Some b \<Longrightarrow>
   \<exists>v r. apply_times body_fn i init_val = Inr v \<and> cond_fn v = Inr r \<and> asarray_bool r = b"
  by (auto simp: cond_at_def split: sum.splits)

lemma active_calls_Suc:
  "apply_times body_fn n init_val = Inr v \<Longrightarrow>
   active_calls body_fn init_val (Suc n) =
     active_calls body_fn init_val n @ [CondCall v, BodyCall v]"
  by (simp add: active_calls_def)

lemma body_calls_active_calls:
  "body_calls (active_calls body_fn init_val n) \<le> n"
  by (induction n) (auto simp: active_calls_def body_calls_def split: sum.splits)

text \<open>While the condition holds, every step applies the body and the latch stays open.\<close>

lemma lax_scan_active:
  "remains_true cond_fn body_fn init_val n \<Longrightarrow> apply_times body_fn n init_val = Inr v \<Longrightarrow>
   lax_scan (scan_step cond_fn body_fn) (init_val, False) n log =
     (log @ active_calls body_fn init_val n, Inr ((v, False), ()))"
proof (induction n arbitrary: v)
  case 0
  then show ?case by (simp add: active_calls_def)
next
  case (Suc n)
  from Suc.prems(1) have rt: "remains_true cond_fn body_fn init_val n"
    and cn: "cond_at cond_fn body_fn init_val n = Some True"
    by (simp_all add: remains_true_iff)
  from cn obtain w r where w: "apply_times body_fn n init_val = Inr w"
    and r: "cond_fn w = Inr r" "asarray_bool r"
    by (auto dest: cond_at_SomeD)
  from Suc.prems(2) w have b: "body_fn w = Inr v" by simp
  have "lax_scan (scan_step cond_fn body_fn) (init_val, False) n log =
     (log @ active_calls body_fn init_val n, Inr ((w, False), ()))"
    by (rule Suc.IH [OF rt w])
  then show ?case
    using r b w
    by (simp only: lax_scan_Suc_end) (simp add: scan_step_body active_calls_Suc)
qed

text \<open>Once the condition has failed, one more step closes the latch and the rest are no-ops.\<close>

lemma lax_scan_stops:
  assumes "first_false_after cond_fn body_fn init_val k"
    and "apply_times body_fn k init_val = Inr v"
    and "k < n"
  shows "lax_scan (scan_step cond_fn body_fn) (init_val, False) n log =
     (log @ active_calls body_fn init_val k @ [CondCall v], Inr ((v, True), ()))"
proof -
  from assms(1) have rt: "remains_true cond_fn body_fn init_val k"
    and ck: "cond_at cond_fn body_fn init_val k = Some False"
    by (simp_all add: first_false_after_def)
  from ck assms(2) obtain r where r: "cond_fn v = Inr r" "\<not> asarray_bool r"
    by (auto dest: cond_at_SomeD)
  from assms(3) obtain m where n: "n = k + Suc m"
    by (auto simp: less_iff_Suc_add)
  have "lax_scan (scan_step cond_fn body_fn) (init_val, False) k log =
     (log @ active_calls body_fn init_val k, Inr ((v, False), ()))"
    by (rule lax_scan_active [OF rt assms(2)])
  then show ?thesis
    using r unfolding n lax_scan_add
    by (simp add: scan_step_stop lax_scan_done)
qed

lemma first_false_after_value:
  "first_false_after cond_fn body_fn init_val k \<Longrightarrow> \<exists>v. apply_times body_fn k init_val = Inr v"
  by (auto simp: first_false_after_def dest: cond_at_SomeD)

section \<open>The trivial bound and the validation of the bound\<close>

text \<open>
  C4. With \<open>max_steps = 0\<close> the combinator returns \<open>init_val\<close> itself, with no deferred
  failure, and invokes neither \<open>cond_fn\<close> nor \<open>body_fn\<close>: the call history is returned as
  it was, whatever the two functions are.
\<close>

theorem max_steps_zero_returns_init:
  "bounded_while_loop cond_fn body_fn init_val (PyInt 0) log = (log, Inr (Plain init_val))"
  by (simp add: bounded_while_loop_def)

text \<open>
  C5. For every \<open>max_steps\<close> that is not a non-negative integer (such as \<open>-1\<close>, \<open>1.5\<close> or
  the string \<open>"3"\<close>) the combinator raises \<open>ValueError\<close> at once: the call history is
  unchanged, so neither \<open>cond_fn\<close> nor \<open>body_fn\<close> has been invoked and no loop has been
  run, and the message names the requirement ("non-negative").
\<close>

theorem invalid_max_steps_raises:
  "\<not> non_negative_integer max_steps \<Longrightarrow>
   bounded_while_loop cond_fn body_fn init_val max_steps log =
     (log, Inl (ValueError ''max_steps must be a non-negative Python int.''))
   \<and> sublist ''non-negative'' ''max_steps must be a non-negative Python int.''"
proof -
  assume a: "\<not> non_negative_integer max_steps"
  have m: "sublist ''non-negative'' ''max_steps must be a non-negative Python int.''"
    by code_simp
  from a have "bounded_while_loop cond_fn body_fn init_val max_steps log =
     (log, Inl (ValueError ''max_steps must be a non-negative Python int.''))"
    by (cases max_steps) (simp_all add: bounded_while_loop_def max_steps_msg_def)
  with m show ?thesis by simp
qed

theorem invalid_max_steps_raises_witness:
  "bounded_while_loop cond_raises body_raises 0 (PyInt (- 1)) [] =
     ([], Inl (ValueError ''max_steps must be a non-negative Python int.''))
   \<and> bounded_while_loop (cond_lt 1) add_one 0 (PyFloat 3 (- 1)) [] =
     ([], Inl (ValueError ''max_steps must be a non-negative Python int.''))
   \<and> bounded_while_loop (cond_lt 1) add_one 0 (PyStr ''3'') [] =
     ([], Inl (ValueError ''max_steps must be a non-negative Python int.''))"
  using invalid_max_steps_raises [of "PyInt (- 1)" cond_raises body_raises 0 "[]"]
    invalid_max_steps_raises [of "PyFloat 3 (- 1)" "cond_lt 1" add_one 0 "[]"]
    invalid_max_steps_raises [of "PyStr ''3''" "cond_lt 1" add_one 0 "[]"]
  by simp




section \<open>The latch\<close>

text \<open>
  C7. The \<open>done\<close> latch is monotonic: a step that starts with \<open>done\<close> true ends with
  \<open>done\<close> true (so the only transitions are false to false, false to true and true to
  true), it leaves \<open>val\<close> as it was and calls no user function; and any number of further
  steps from a state with \<open>done\<close> true return that state unchanged.
\<close>

theorem done_latch_monotonic:
  "(scan_step cond_fn body_fn (val, was_done) u log = (log', Inr ((val', now_done), u')) \<longrightarrow>
      (was_done \<longrightarrow> now_done \<and> val' = val \<and> log' = log))
   \<and> lax_scan (scan_step cond_fn body_fn) (val, True) n log = (log, Inr ((val, True), ()))"
  by (cases was_done) (simp_all add: lax_scan_done scan_step_done)

theorem done_latch_monotonic_witness:
  "scan_step (cond_lt 5) add_one (7, True) () [] = ([], Inr ((7, True), ()))
   \<and> lax_scan (scan_step (cond_lt 5) add_one) (7, True) 3 [] = ([], Inr ((7, True), ()))"
  using done_latch_monotonic [where cond_fn = "cond_lt 5" and body_fn = add_one and val = 7
      and was_done = True and u = "()" and log = "[]" and log' = "[]" and val' = 7
      and now_done = True and u' = "()" and n = 3]
  by (simp add: scan_step_done)

section \<open>The call history of a run\<close>

text \<open>
  A run only appends to the call history it starts from, and what it appends and returns
  does not depend on that history: a statement about a run from the empty history, as the
  ones on the number of body calls and on exceptions below, carries over to a run from
  any history.
\<close>

lemma scan_step_history:
  "scan_step cond_fn body_fn carry u log =
     (log @ fst (scan_step cond_fn body_fn carry u []), snd (scan_step cond_fn body_fn carry u []))"
  by (cases carry)
    (simp add: scan_step_def lax_cond_def not_done_def do_body_def stop_now_def
      already_done_def split: sum.splits)

lemma lax_scan_history:
  "lax_scan (scan_step cond_fn body_fn) carry n log =
     (log @ fst (lax_scan (scan_step cond_fn body_fn) carry n []),
      snd (lax_scan (scan_step cond_fn body_fn) carry n []))"
proof (induction n arbitrary: carry log)
  case 0
  show ?case by simp
next
  case (Suc n)
  obtain l r where s0: "scan_step cond_fn body_fn carry () [] = (l, r)"
    by (cases "scan_step cond_fn body_fn carry () []")
  then have s: "scan_step cond_fn body_fn carry () log = (log @ l, r)"
    using scan_step_history [of cond_fn body_fn carry "()" log] by simp
  show ?case
  proof (cases r)
    case (Inl e)
    with s0 s show ?thesis by simp
  next
    case (Inr cy)
    obtain c' ys where cy: "cy = (c', ys)" by (cases cy)
    have a: "lax_scan (scan_step cond_fn body_fn) c' n (log @ l) =
      ((log @ l) @ fst (lax_scan (scan_step cond_fn body_fn) c' n []),
       snd (lax_scan (scan_step cond_fn body_fn) c' n []))"
      by (rule Suc.IH)
    have b: "lax_scan (scan_step cond_fn body_fn) c' n l =
      (l @ fst (lax_scan (scan_step cond_fn body_fn) c' n []),
       snd (lax_scan (scan_step cond_fn body_fn) c' n []))"
      by (rule Suc.IH)
    from s0 s Inr cy a b show ?thesis by simp
  qed
qed

lemma bounded_while_loop_history:
  "bounded_while_loop cond_fn body_fn init_val max_steps log =
     (log @ fst (bounded_while_loop cond_fn body_fn init_val max_steps []),
      snd (bounded_while_loop cond_fn body_fn init_val max_steps []))"
proof (cases "\<exists>n. isinstance_int max_steps = Some n \<and> 0 < n")
  case False
  then show ?thesis
    by (auto simp: bounded_while_loop_def split: option.splits)
next
  case True
  then obtain n where n: "isinstance_int max_steps = Some n" "0 < n" by blast
  obtain l r where l: "lax_scan (scan_step cond_fn body_fn) (init_val, False) (nat n) [] = (l, r)"
    by (cases "lax_scan (scan_step cond_fn body_fn) (init_val, False) (nat n) []")
  then have "lax_scan (scan_step cond_fn body_fn) (init_val, False) (nat n) log = (log @ l, r)"
    using lax_scan_history [of cond_fn body_fn "(init_val, False)" "nat n" log] by simp
  with l n show ?thesis
    by (simp add: bounded_while_loop_def split: sum.splits prod.splits)
qed

section \<open>Runs that exhaust the bound and runs that stop early\<close>

lemma bounded_while_loop_positive:
  "isinstance_int max_steps = Some m \<Longrightarrow> 0 < m \<Longrightarrow>
   lax_scan (scan_step cond_fn body_fn) (init_val, False) (nat m) log = (log', Inr ((v, d), ys)) \<Longrightarrow>
   bounded_while_loop cond_fn body_fn init_val max_steps log =
     (log', Inr (error_if v (\<not> d) exceeded_msg))"
  by (simp add: bounded_while_loop_def)

lemma apply_times_prefix:
  "apply_times body_fn k v0 = Inr v \<Longrightarrow> n \<le> k \<Longrightarrow> \<exists>w. apply_times body_fn n v0 = Inr w"
proof (induction k arbitrary: v)
  case 0
  then show ?case by simp
next
  case (Suc k)
  show ?case
  proof (cases "n = Suc k")
    case True
    with Suc.prems show ?thesis by blast
  next
    case False
    with Suc.prems have "n \<le> k" by simp
    moreover from Suc.prems obtain w' where "apply_times body_fn k v0 = Inr w'"
      by (auto split: sum.splits)
    ultimately show ?thesis using Suc.IH by blast
  qed
qed

lemma remains_true_prefix:
  "remains_true cond_fn body_fn init_val k \<Longrightarrow> n \<le> k \<Longrightarrow> remains_true cond_fn body_fn init_val n"
  by (simp add: remains_true_iff)

lemma body_calls_append: "body_calls (xs @ ys) = body_calls xs + body_calls ys"
  by (simp add: body_calls_def)

text \<open>
  C2, for a positive bound. If \<open>max_steps = n > 0\<close>, \<open>cond_fn\<close> is true after each of
  \<open>0, ..., n - 1\<close> applications of \<open>body_fn\<close> to \<open>init_val\<close>, and the \<open>n\<close> applications give
  the carry \<open>v\<close>, then the call itself does not raise: it returns \<open>v\<close> carrying a deferred
  failure. Realizing that value raises \<open>RuntimeError\<close>, and the message contains
  "exceeded" and "max_steps".

  With \<open>max_steps = 0\<close> the statement fails: the combinator returns \<open>init_val\<close> with no
  failure attached, also under a condition that is always true (the second theorem
  below the witness).
\<close>

theorem bound_exceeded_deferred_error:
  assumes "0 < n"
    and "remains_true cond_fn body_fn init_val n"
    and "apply_times body_fn n init_val = Inr v"
  shows "snd (bounded_while_loop cond_fn body_fn init_val (PyInt (int n)) log) =
       Inr (Poisoned v exceeded_msg)
     \<and> realize (Poisoned v exceeded_msg) = Inl (RuntimeError exceeded_msg)
     \<and> sublist ''exceeded'' exceeded_msg \<and> sublist ''max_steps'' exceeded_msg"
proof -
  have "lax_scan (scan_step cond_fn body_fn) (init_val, False) n log =
     (log @ active_calls body_fn init_val n, Inr ((v, False), ()))"
    by (rule lax_scan_active [OF assms(2,3)])
  with assms(1) have "bounded_while_loop cond_fn body_fn init_val (PyInt (int n)) log =
     (log @ active_calls body_fn init_val n, Inr (error_if v (\<not> False) exceeded_msg))"
    by (intro bounded_while_loop_positive [where m = "int n"]) simp_all
  moreover have "sublist ''exceeded'' exceeded_msg" "sublist ''max_steps'' exceeded_msg"
    unfolding exceeded_msg_def by code_simp+
  ultimately show ?thesis by (simp add: error_if_def)
qed

theorem bound_exceeded_deferred_error_witness:
  "remains_true always_true add_one 0 3 \<and> apply_times add_one 3 0 = Inr 3
   \<and> snd (bounded_while_loop always_true add_one 0 (PyInt 3) []) = Inr (Poisoned 3 exceeded_msg)
   \<and> realize (Poisoned (3::int) exceeded_msg) = Inl (RuntimeError exceeded_msg)"
proof -
  have r: "remains_true always_true add_one 0 3" by code_simp
  have a: "apply_times add_one 3 0 = Inr 3" by code_simp
  have p: "(0::nat) < 3" by simp
  from bound_exceeded_deferred_error [OF p r a, of "[]"] r a show ?thesis by simp
qed

theorem bound_exceeded_zero_counterexample:
  "remains_true always_true add_one 0 0 \<and> cond_at always_true add_one 0 0 = Some True
   \<and> bounded_while_loop always_true add_one 0 (PyInt 0) [] = ([], Inr (Plain 0))
   \<and> realize (Plain (0::int)) = Inr 0"
  by (simp add: remains_true_def cond_at_def always_true_def bounded_while_loop_def)

text \<open>
  C6. If \<open>cond_fn\<close> first becomes false after exactly \<open>k\<close> applications of \<open>body_fn\<close> to
  \<open>init_val\<close>, then a run applies \<open>body_fn\<close> at most \<open>k\<close> times, whatever \<open>max_steps\<close> is; and
  for every bound \<open>n > k\<close> the calls of the run are the same: \<open>cond_fn\<close> and \<open>body_fn\<close> on each
  of the first \<open>k\<close> carries, then the call of \<open>cond_fn\<close> that returns false, and no call
  after it.
\<close>

theorem body_applied_at_most_k_times:
  assumes "first_false_after cond_fn body_fn init_val k"
  shows "body_calls (fst (bounded_while_loop cond_fn body_fn init_val max_steps [])) \<le> k
     \<and> (\<exists>v. apply_times body_fn k init_val = Inr v
          \<and> (\<forall>n>k. fst (bounded_while_loop cond_fn body_fn init_val (PyInt (int n)) []) =
                 active_calls body_fn init_val k @ [CondCall v]))"
proof -
  from first_false_after_value [OF assms] obtain v where v: "apply_times body_fn k init_val = Inr v"
    by (elim exE)
  from assms have rt: "remains_true cond_fn body_fn init_val k"
    by (simp add: first_false_after_def)
  have stop: "bounded_while_loop cond_fn body_fn init_val ms [] =
      (active_calls body_fn init_val k @ [CondCall v], Inr (error_if v (\<not> True) exceeded_msg))"
    if "isinstance_int ms = Some m" "0 < m" "k < nat m" for ms m
    using that lax_scan_stops [OF assms v that(3), of "[]"]
    by (intro bounded_while_loop_positive [where m = m]) simp_all
  have 1: "body_calls (fst (bounded_while_loop cond_fn body_fn init_val max_steps [])) \<le> k"
  proof (cases "isinstance_int max_steps")
    case None
    then show ?thesis by (simp add: bounded_while_loop_def body_calls_def)
  next
    case (Some m)
    consider "m \<le> 0" | "0 < m" "nat m \<le> k" | "0 < m" "k < nat m" by linarith
    then show ?thesis
    proof cases
      case 1
      with Some show ?thesis by (simp add: bounded_while_loop_def body_calls_def)
    next
      case 2
      from apply_times_prefix [OF v 2(2)] obtain w where w: "apply_times body_fn (nat m) init_val = Inr w"
        by blast
      have "lax_scan (scan_step cond_fn body_fn) (init_val, False) (nat m) [] =
         ([] @ active_calls body_fn init_val (nat m), Inr ((w, False), ()))"
        by (rule lax_scan_active [OF remains_true_prefix [OF rt 2(2)] w])
      with Some 2(1) have "bounded_while_loop cond_fn body_fn init_val max_steps [] =
         (active_calls body_fn init_val (nat m), Inr (error_if w (\<not> False) exceeded_msg))"
        by (intro bounded_while_loop_positive [where m = m]) simp_all
      then show ?thesis
        using body_calls_active_calls [of body_fn init_val "nat m"] 2(2) by simp
    next
      case 3
      from stop [OF Some 3] show ?thesis
        using body_calls_active_calls [of body_fn init_val k]
        by (simp add: body_calls_append) (simp add: body_calls_def)
    qed
  qed
  have 2: "fst (bounded_while_loop cond_fn body_fn init_val (PyInt (int n)) []) =
                 active_calls body_fn init_val k @ [CondCall v]" if "k < n" for n
    using stop [of "PyInt (int n)" "int n"] that by simp
  from 1 2 v show ?thesis by blast
qed

theorem body_applied_at_most_k_times_witness:
  "first_false_after (cond_lt 2) add_one 0 2
   \<and> body_calls (fst (bounded_while_loop (cond_lt 2) add_one 0 (PyInt 10) [])) \<le> 2
   \<and> fst (bounded_while_loop (cond_lt 2) add_one 0 (PyInt 10) []) =
       [CondCall 0, BodyCall 0, CondCall 1, BodyCall 1, CondCall 2]"
proof -
  have f: "first_false_after (cond_lt 2) add_one 0 2" by code_simp
  have a: "apply_times add_one 2 0 = Inr 2" by code_simp
  have c: "active_calls add_one 0 2 = [CondCall 0, BodyCall 0, CondCall 1, BodyCall 1]" by code_simp
  from body_applied_at_most_k_times [OF f, of "PyInt 10"] obtain v where
    1: "body_calls (fst (bounded_while_loop (cond_lt 2) add_one 0 (PyInt 10) [])) \<le> 2"
    and 2: "apply_times add_one 2 0 = Inr v"
    and 3: "\<forall>n>2. fst (bounded_while_loop (cond_lt 2) add_one 0 (PyInt (int n)) []) =
                 active_calls add_one 0 2 @ [CondCall v]"
    by blast
  from 3 [rule_format, of 10]
  have "fst (bounded_while_loop (cond_lt 2) add_one 0 (PyInt 10) []) =
                 active_calls add_one 0 2 @ [CondCall v]" by simp
  with 2 a c f 1 show ?thesis by simp
qed

section \<open>Exceptions of the user functions\<close>

text \<open>Unfolding a run on concrete user functions.\<close>

lemmas run_defs = bounded_while_loop_def scan_step_def lax_cond_def not_done_def do_body_def
  stop_now_def already_done_def error_if_def

lemma scan_step_faithful:
  "list_all (\<lambda>call. raised cond_fn body_fn call = None) log \<Longrightarrow>
   faithful cond_fn body_fn (scan_step cond_fn body_fn carry u log)"
  by (cases carry)
    (auto simp: faithful_def scan_step_def lax_cond_def not_done_def do_body_def stop_now_def
      already_done_def list_all_iff list_ex_iff split: sum.splits)

lemma lax_scan_faithful:
  "list_all (\<lambda>call. raised cond_fn body_fn call = None) log \<Longrightarrow>
   faithful cond_fn body_fn (lax_scan (scan_step cond_fn body_fn) carry n log)"
proof (induction n arbitrary: carry log)
  case 0
  then show ?case by (simp add: faithful_def)
next
  case (Suc n)
  obtain l r where s: "scan_step cond_fn body_fn carry () log = (l, r)"
    by (cases "scan_step cond_fn body_fn carry () log")
  from scan_step_faithful [OF Suc.prems, of carry "()"] s
  have f: "faithful cond_fn body_fn (l, r)" by simp
  show ?case
  proof (cases r)
    case (Inl e)
    with s f show ?thesis by simp
  next
    case (Inr cy)
    obtain c' ys where cy: "cy = (c', ys)" by (cases cy)
    from f Inr have "list_all (\<lambda>call. raised cond_fn body_fn call = None) l"
      by (simp add: faithful_def)
    then have "faithful cond_fn body_fn (lax_scan (scan_step cond_fn body_fn) c' n l)"
      by (rule Suc.IH)
    with s Inr cy show ?thesis by simp
  qed
qed

lemma bounded_while_loop_faithful:
  "non_negative_integer max_steps \<Longrightarrow>
   faithful cond_fn body_fn (bounded_while_loop cond_fn body_fn init_val max_steps [])"
proof -
  assume v: "non_negative_integer max_steps"
  then obtain m where m: "isinstance_int max_steps = Some m" "0 \<le> m"
    by (cases max_steps) auto
  show ?thesis
  proof (cases "m = 0")
    case True
    with m show ?thesis by (simp add: bounded_while_loop_def faithful_def)
  next
    case False
    have "faithful cond_fn body_fn (lax_scan (scan_step cond_fn body_fn) (init_val, False) (nat m) [])"
      by (rule lax_scan_faithful) simp
    with m False show ?thesis
      by (auto simp: bounded_while_loop_def faithful_def split: prod.splits sum.splits)
  qed
qed

lemma bounded_while_loop_invalid:
  "\<not> non_negative_integer max_steps \<Longrightarrow>
   bounded_while_loop cond_fn body_fn init_val max_steps log = (log, Inl (ValueError max_steps_msg))"
  by (cases max_steps) (simp_all add: bounded_while_loop_def)

text \<open>
  C9. An exception raised inside \<open>cond_fn\<close> or \<open>body_fn\<close> during a run reaches the caller
  as it is: if a call recorded in the run raised \<open>e\<close>, the combinator raises exactly \<open>e\<close>
  (it is neither caught nor replaced); and the only exceptions the combinator raises are
  its own \<open>ValueError\<close> for an invalid \<open>max_steps\<close> and those raised by a recorded call of
  a user function.
\<close>

theorem user_exception_propagates:
  "(call \<in> set (fst (bounded_while_loop cond_fn body_fn init_val max_steps []))
      \<and> raised cond_fn body_fn call = Some e \<longrightarrow>
    snd (bounded_while_loop cond_fn body_fn init_val max_steps []) = Inl e)
   \<and> (snd (bounded_while_loop cond_fn body_fn init_val max_steps []) = Inl e' \<longrightarrow>
        (\<not> non_negative_integer max_steps \<and> e' = ValueError max_steps_msg)
        \<or> (\<exists>call \<in> set (fst (bounded_while_loop cond_fn body_fn init_val max_steps [])).
              raised cond_fn body_fn call = Some e'))"
proof (cases "non_negative_integer max_steps")
  case False
  then show ?thesis by (simp add: bounded_while_loop_invalid)
next
  case True
  obtain l r where b: "bounded_while_loop cond_fn body_fn init_val max_steps [] = (l, r)"
    by (cases "bounded_while_loop cond_fn body_fn init_val max_steps []")
  from bounded_while_loop_faithful [OF True, of cond_fn body_fn init_val] b
  have "faithful cond_fn body_fn (l, r)" by simp
  with b show ?thesis
    by (cases r) (auto simp: faithful_def list_all_iff list_ex_iff)
qed

theorem user_exception_propagates_witness:
  "BodyCall 2 \<in> set (fst (bounded_while_loop always_true (fails_at 2) 0 (PyInt 5) []))
   \<and> raised always_true (fails_at 2) (BodyCall 2) = Some (OtherError ''KeyError'' ''missing'')
   \<and> snd (bounded_while_loop always_true (fails_at 2) 0 (PyInt 5) []) =
       Inl (OtherError ''KeyError'' ''missing'')
   \<and> CondCall 0 \<in> set (fst (bounded_while_loop cond_raises add_one 0 (PyInt 5) []))
   \<and> snd (bounded_while_loop cond_raises add_one 0 (PyInt 5) []) =
       Inl (AssertionError ''cond_fn should not be called when max_steps=0'')"
proof -
  have l: "fst (bounded_while_loop always_true (fails_at 2) 0 (PyInt 5) []) =
      [CondCall 0, BodyCall 0, CondCall 1, BodyCall 1, CondCall 2, BodyCall 2]"
    by (simp add: run_defs always_true_def fails_at_def eval_nat_numeral)
  have r: "raised always_true (fails_at 2) (BodyCall 2) = Some (OtherError ''KeyError'' ''missing'')"
    by (simp add: fails_at_def)
  have l': "fst (bounded_while_loop cond_raises add_one 0 (PyInt 5) []) = [CondCall 0]"
    by (simp add: run_defs cond_raises_def eval_nat_numeral)
  have r': "raised cond_raises add_one (CondCall 0) =
      Some (AssertionError ''cond_fn should not be called when max_steps=0'')"
    by (simp add: cond_raises_def)
  have a: "snd (bounded_while_loop always_true (fails_at 2) 0 (PyInt 5) []) =
       Inl (OtherError ''KeyError'' ''missing'')"
    using user_exception_propagates [where cond_fn = always_true and body_fn = "fails_at 2"
      and init_val = 0 and max_steps = "PyInt 5" and call = "BodyCall 2"
      and e = "OtherError ''KeyError'' ''missing''", THEN conjunct1] l r
    by simp
  have b: "snd (bounded_while_loop cond_raises add_one 0 (PyInt 5) []) =
       Inl (AssertionError ''cond_fn should not be called when max_steps=0'')"
    using user_exception_propagates [where cond_fn = cond_raises and body_fn = add_one
      and init_val = 0 and max_steps = "PyInt 5" and call = "CondCall 0"
      and e = "AssertionError ''cond_fn should not be called when max_steps=0''",
      THEN conjunct1] l' r'
    by simp
  from a b l l' r show ?thesis by simp
qed

section \<open>Termination within the bound\<close>

text \<open>
  When the condition first fails after \<open>k\<close> applications, every bound above \<open>k\<close> gives the
  carry after \<open>k\<close> applications with no failure attached; a bound equal to \<open>k > 0\<close> gives
  the same carry with the failure attached, because closing the latch takes a step of
  its own; the loop of the docstring returns the carry for every bound from \<open>k\<close> on.
\<close>

lemma terminates_below_bound:
  assumes "first_false_after cond_fn body_fn init_val k"
    and "apply_times body_fn k init_val = Inr v"
    and "k < n"
  shows "bounded_while_loop cond_fn body_fn init_val (PyInt (int n)) log =
     (log @ active_calls body_fn init_val k @ [CondCall v], Inr (Plain v))"
proof -
  have "bounded_while_loop cond_fn body_fn init_val (PyInt (int n)) log =
     (log @ active_calls body_fn init_val k @ [CondCall v], Inr (error_if v (\<not> True) exceeded_msg))"
    using lax_scan_stops [OF assms, of log] assms(3)
    by (intro bounded_while_loop_positive [where m = "int n"]) simp_all
  then show ?thesis by (simp add: error_if_def)
qed

lemma flagged_at_bound:
  assumes "first_false_after cond_fn body_fn init_val k"
    and "apply_times body_fn k init_val = Inr v"
    and "0 < k"
  shows "bounded_while_loop cond_fn body_fn init_val (PyInt (int k)) log =
     (log @ active_calls body_fn init_val k, Inr (Poisoned v exceeded_msg))"
proof -
  from assms(1) have rt: "remains_true cond_fn body_fn init_val k"
    by (simp add: first_false_after_def)
  have "bounded_while_loop cond_fn body_fn init_val (PyInt (int k)) log =
     (log @ active_calls body_fn init_val k, Inr (error_if v (\<not> False) exceeded_msg))"
    using lax_scan_active [OF rt assms(2), of log] assms(3)
    by (intro bounded_while_loop_positive [where m = "int k"]) simp_all
  then show ?thesis by (simp add: error_if_def)
qed

lemma apply_times_Suc_front:
  "apply_times body_fn (Suc k) v =
     (case body_fn v of Inl e \<Rightarrow> Inl e | Inr w \<Rightarrow> apply_times body_fn k w)"
  by (induction k) (auto split: sum.splits)

lemma cond_at_Suc_front:
  "body_fn v = Inr w \<Longrightarrow> cond_at cond_fn body_fn v (Suc j) = cond_at cond_fn body_fn w j"
  unfolding cond_at_def apply_times_Suc_front by simp

lemma docstring_loop_correct:
  "first_false_after cond_fn body_fn init_val k \<Longrightarrow> apply_times body_fn k init_val = Inr v \<Longrightarrow>
   k \<le> n \<Longrightarrow> docstring_loop cond_fn body_fn init_val n = Inr v"
proof (induction k arbitrary: init_val n)
  case 0
  from "0.prems"(1) have "cond_at cond_fn body_fn init_val 0 = Some False"
    by (simp add: first_false_after_def)
  then obtain r where r: "cond_fn init_val = Inr r" "\<not> asarray_bool r"
    by (auto simp: cond_at_def split: sum.splits)
  from "0.prems"(2) have v: "v = init_val" by simp
  show ?case
  proof (cases n)
    case 0
    with r v show ?thesis by simp
  next
    case (Suc n')
    with r v show ?thesis by simp
  qed
next
  case (Suc k)
  from Suc.prems(1) have all: "\<forall>i<Suc k. cond_at cond_fn body_fn init_val i = Some True"
    and last: "cond_at cond_fn body_fn init_val (Suc k) = Some False"
    by (simp_all add: first_false_after_def remains_true_iff)
  from all have "cond_at cond_fn body_fn init_val 0 = Some True" by simp
  then obtain r where r: "cond_fn init_val = Inr r" "asarray_bool r"
    by (auto simp: cond_at_def split: sum.splits)
  from Suc.prems(2)
  have "(case body_fn init_val of Inl e \<Rightarrow> Inl e | Inr w \<Rightarrow> apply_times body_fn k w) = Inr v"
    by (simp only: apply_times_Suc_front)
  then obtain w where w: "body_fn init_val = Inr w"
    and wv: "apply_times body_fn k w = Inr v"
    by (cases "body_fn init_val") simp_all
  have "cond_at cond_fn body_fn w j = Some True" if "j < k" for j
  proof -
    from that all have "cond_at cond_fn body_fn init_val (Suc j) = Some True" by simp
    then show ?thesis by (simp only: cond_at_Suc_front [where body_fn = body_fn and v = init_val, OF w])
  qed
  moreover from last have "cond_at cond_fn body_fn w k = Some False"
    by (simp only: cond_at_Suc_front [where body_fn = body_fn and v = init_val, OF w])
  ultimately have ff: "first_false_after cond_fn body_fn w k"
    by (simp add: first_false_after_def remains_true_iff)
  from Suc.prems(3) obtain n' where n: "n = Suc n'" "k \<le> n'"
    by (cases n) simp_all
  have "docstring_loop cond_fn body_fn w n' = Inr v"
    by (rule Suc.IH [OF ff wv n(2)])
  with r w show ?case unfolding n(1) by simp
qed

text \<open>
  C1 says that when \<open>cond_fn\<close> first becomes false after exactly \<open>k \<le> max_steps\<close>
  applications of \<open>body_fn\<close>, the combinator returns the carry after \<open>k\<close> applications and
  no error is raised, for every \<open>max_steps \<ge> k\<close>. The run of \<open>cond_fn(x) = x < 1\<close>,
  \<open>body_fn(x) = x + 1\<close>, \<open>init_val = 0\<close> with \<open>max_steps = 1\<close> has \<open>k = 1\<close>: the condition is
  false after one application, the loop of the docstring returns 1, and the combinator
  returns 1 with the bound-exceeded failure attached, so that realizing it raises
  \<open>RuntimeError\<close>. With \<open>max_steps = 2\<close> the same run returns 1 with no failure.
\<close>

theorem flagged_when_bound_equals_k:
  "first_false_after (cond_lt 1) add_one 0 1
   \<and> apply_times add_one 1 0 = Inr 1
   \<and> bounded_while_loop (cond_lt 1) add_one 0 (PyInt 1) [] =
       ([CondCall 0, BodyCall 0], Inr (Poisoned 1 exceeded_msg))
   \<and> realize (Poisoned (1::int) exceeded_msg) = Inl (RuntimeError exceeded_msg)
   \<and> docstring_loop (cond_lt 1) add_one 0 1 = Inr 1
   \<and> bounded_while_loop (cond_lt 1) add_one 0 (PyInt 2) [] =
       ([CondCall 0, BodyCall 0, CondCall 1], Inr (Plain 1))"
proof -
  have 1: "first_false_after (cond_lt 1) add_one 0 1"
    by (simp add: first_false_after_def remains_true_def cond_at_def cond_lt_def add_one_def)
  have 2: "apply_times add_one 1 0 = Inr 1"
    by (simp add: add_one_def)
  have 3: "bounded_while_loop (cond_lt 1) add_one 0 (PyInt 1) [] =
       ([CondCall 0, BodyCall 0], Inr (Poisoned 1 exceeded_msg))"
    by (simp add: run_defs cond_lt_def add_one_def)
  have 4: "docstring_loop (cond_lt 1) add_one 0 1 = Inr 1"
    by (simp add: cond_lt_def add_one_def)
  have 5: "bounded_while_loop (cond_lt 1) add_one 0 (PyInt 2) [] =
       ([CondCall 0, BodyCall 0, CondCall 1], Inr (Plain 1))"
    by (simp add: run_defs cond_lt_def add_one_def eval_nat_numeral)
  from 1 2 3 4 5 show ?thesis by simp
qed


end
